theory Spec2Isabelle
  imports Main
begin

section \<open>Go integers\<close>

text \<open>
  The handler runs on a 64-bit target, where Go's \<^verbatim>\<open>int\<close> is a 64-bit two's complement
  integer whose arithmetic wraps around silently. Values are modelled as \<^typ>\<open>int\<close>, and
  the wrap-around is written out with \<open>wrap64\<close> at every arithmetic operation of the
  source whose operands are not bounded by a loop guard: the two doublings of
  \<^verbatim>\<open>getDifficulty\<close> and the two increments of \<^verbatim>\<open>rollDice\<close> and \<^verbatim>\<open>rollDices\<close>.
  A loop index \<^verbatim>\<open>i++\<close> is only executed under \<^verbatim>\<open>i < n\<close>, and a counter is
  incremented at most once per iteration, so neither can pass the largest \<^verbatim>\<open>int\<close>;
  they are written without \<open>wrap64\<close>.
\<close>

definition wrap64 :: "int \<Rightarrow> int" where
  "wrap64 x = (x + 2 ^ 63) mod 2 ^ 64 - 2 ^ 63"

definition maxInt :: int where
  "maxInt = 2 ^ 63 - 1"

section \<open>Data model\<close>

text \<open>The decoded JSON payload (\<^verbatim>\<open>type requestBody struct\<close>).\<close>

record requestBody =
  Strength :: int
  Endurance :: int
  DiceNumber :: int
  TouchDifficulty :: int
  ArmorSave :: int
  InvuSave :: int
  RunNumber :: int

text \<open>The parameters of a batch (\<^verbatim>\<open>type params struct\<close>).\<close>

record params =
  DiceNumber :: int
  TouchDifficulty :: int
  HurtDifficulty :: int
  ArmorSave :: int
  InvuSave :: int
  RunNumber :: int

section \<open>The random source\<close>

text \<open>
  \<^verbatim>\<open>math/rand/v2\<close> is a library, not code of the repository. Its process-wide generator
  is modelled as an explicit state: an arbitrary infinite sequence of raw values
  (\<open>entropy\<close>) and the number of draws made so far (\<open>calls\<close>). \<^verbatim>\<open>rand.IntN(n)\<close>
  panics when \<^verbatim>\<open>n <= 0\<close> (the value \<open>None\<close>) and otherwise returns a value of the
  half-open interval \<open>[0, n)\<close>; reducing the next raw value modulo \<open>n\<close> reaches every
  value of that interval, so a statement about every \<open>entropy\<close> is a statement about
  every sequence of draws.
\<close>

record rand_source =
  entropy :: "nat \<Rightarrow> nat"
  calls :: nat

definition IntN :: "int \<Rightarrow> rand_source \<Rightarrow> (int \<times> rand_source) option" where
  "IntN n s =
     (if n \<le> 0 then None
      else Some (int (entropy s (calls s)) mod n, s\<lparr>calls := Suc (calls s)\<rparr>))"

text \<open>The source after \<open>k\<close> further draws.\<close>

definition advance :: "nat \<Rightarrow> rand_source \<Rightarrow> rand_source" where
  "advance k s = s\<lparr>calls := calls s + k\<rparr>"

text \<open>A source that yields the same raw value at every draw, and one that counts up.\<close>

definition const_source :: "nat \<Rightarrow> rand_source" where
  "const_source v = \<lparr>entropy = (\<lambda>_. v), calls = 0\<rparr>"

definition counting_source :: rand_source where
  "counting_source = \<lparr>entropy = (\<lambda>k. k), calls = 0\<rparr>"

section \<open>Dice\<close>

text \<open>\<^verbatim>\<open>func rollDice(sides int) int { return rand.IntN(sides) + 1 }\<close>\<close>

definition rollDice :: "int \<Rightarrow> rand_source \<Rightarrow> (int \<times> rand_source) option" where
  "rollDice sides s =
     (case IntN sides s of
        None \<Rightarrow> None
      | Some (r, s') \<Rightarrow> Some (wrap64 (r + 1), s'))"

text \<open>
  \<^verbatim>\<open>for i := 0; i < numberOfDices; i++ { dicesResults = append(dicesResults, rollDice(sides)+1) }\<close>
\<close>

function rollDices_loop ::
  "int \<Rightarrow> int \<Rightarrow> int \<Rightarrow> int list \<Rightarrow> rand_source \<Rightarrow> (int list \<times> rand_source) option" where
  "rollDices_loop i numberOfDices sides dicesResults s =
     (if i < numberOfDices then
        (case rollDice sides s of
           None \<Rightarrow> None
         | Some (r, s') \<Rightarrow>
             rollDices_loop (i + 1) numberOfDices sides (dicesResults @ [wrap64 (r + 1)]) s')
      else Some (dicesResults, s))"
  by pat_completeness auto
termination
  by (relation "measure (\<lambda>(i, numberOfDices, sides, dicesResults, s). nat (numberOfDices - i))") auto

declare rollDices_loop.simps [simp del]

definition rollDices :: "int \<Rightarrow> int \<Rightarrow> rand_source \<Rightarrow> (int list \<times> rand_source) option" where
  "rollDices numberOfDices sides s = rollDices_loop 0 numberOfDices sides [] s"

section \<open>Difficulty\<close>

definition getDifficulty :: "int \<Rightarrow> int \<Rightarrow> int" where
  "getDifficulty strength endurance =
     (if strength \<ge> wrap64 (endurance * 2) then 2
      else if strength > endurance then 3
      else if wrap64 (strength * 2) \<le> endurance then 6
      else if strength < endurance then 5
      else 4)"

section \<open>Stage filters\<close>

text \<open>
  The loop of \<^verbatim>\<open>getNumberOfTouches\<close> and of \<^verbatim>\<open>getNumberOfHurts\<close>:
  \<^verbatim>\<open>for _, result := range dicesResults { if result >= difficulty { count++ } }\<close>,
  where \<open>difficulty\<close> is \<^verbatim>\<open>params.TouchDifficulty\<close> in the first function and
  \<^verbatim>\<open>params.HurtDifficulty\<close> in the second.
\<close>

fun count_loop :: "int \<Rightarrow> int list \<Rightarrow> int \<Rightarrow> int" where
  "count_loop difficulty [] count = count"
| "count_loop difficulty (result # dicesResults) count =
     count_loop difficulty dicesResults (if result \<ge> difficulty then count + 1 else count)"

definition getNumberOfTouches :: "params \<Rightarrow> int \<Rightarrow> rand_source \<Rightarrow> (int \<times> rand_source) option" where
  "getNumberOfTouches p numberOfDices s =
     (case rollDices numberOfDices 6 s of
        None \<Rightarrow> None
      | Some (dicesResults, s') \<Rightarrow> Some (count_loop (TouchDifficulty p) dicesResults 0, s'))"

definition getNumberOfHurts :: "params \<Rightarrow> int \<Rightarrow> rand_source \<Rightarrow> (int \<times> rand_source) option" where
  "getNumberOfHurts p numberOfDices s =
     (case rollDices numberOfDices 6 s of
        None \<Rightarrow> None
      | Some (dicesResults, s') \<Rightarrow> Some (count_loop (HurtDifficulty p) dicesResults 0, s'))"

section \<open>Save stages\<close>

text \<open>
  The loop of both save stages of \<^verbatim>\<open>getNumberOfHurtsAfterSave\<close>:
  \<^verbatim>\<open>for i := 0; i < n; i++ { if rollDice(6) < save { count++ } }\<close>,
  where \<open>save\<close> is \<^verbatim>\<open>params.ArmorSave\<close> in the first stage and \<^verbatim>\<open>params.InvuSave\<close>
  in the second.
\<close>

function save_loop ::
  "int \<Rightarrow> int \<Rightarrow> int \<Rightarrow> int \<Rightarrow> rand_source \<Rightarrow> (int \<times> rand_source) option" where
  "save_loop save i n count s =
     (if i < n then
        (case rollDice 6 s of
           None \<Rightarrow> None
         | Some (r, s') \<Rightarrow> save_loop save (i + 1) n (if r < save then count + 1 else count) s')
      else Some (count, s))"
  by pat_completeness auto
termination
  by (relation "measure (\<lambda>(save, i, n, count, s). nat (n - i))") auto

declare save_loop.simps [simp del]

definition armor_stage :: "params \<Rightarrow> int \<Rightarrow> rand_source \<Rightarrow> (int \<times> rand_source) option" where
  "armor_stage p numberOfHurts s =
     (if ArmorSave p \<ge> 1 then save_loop (ArmorSave p) 0 numberOfHurts 0 s
      else Some (numberOfHurts, s))"

definition invu_stage :: "params \<Rightarrow> int \<Rightarrow> rand_source \<Rightarrow> (int \<times> rand_source) option" where
  "invu_stage p numberOfHurtsAfterArmorSave s =
     (if InvuSave p \<ge> 1 then save_loop (InvuSave p) 0 numberOfHurtsAfterArmorSave 0 s
      else Some (numberOfHurtsAfterArmorSave, s))"

definition getNumberOfHurtsAfterSave ::
  "params \<Rightarrow> int \<Rightarrow> rand_source \<Rightarrow> (int \<times> rand_source) option" where
  "getNumberOfHurtsAfterSave p numberOfHurts s =
     (case armor_stage p numberOfHurts s of
        None \<Rightarrow> None
      | Some (numberOfHurtsAfterArmorSave, s') \<Rightarrow> invu_stage p numberOfHurtsAfterArmorSave s')"

section \<open>Trial driver\<close>

definition runOnce :: "params \<Rightarrow> rand_source \<Rightarrow> (int \<times> rand_source) option" where
  "runOnce p s =
     (case getNumberOfTouches p (DiceNumber p) s of
        None \<Rightarrow> None
      | Some (numberOfTouches, s1) \<Rightarrow>
          (case getNumberOfHurts p numberOfTouches s1 of
             None \<Rightarrow> None
           | Some (numberOfHurts, s2) \<Rightarrow> getNumberOfHurtsAfterSave p numberOfHurts s2))"

text \<open>
  \<^verbatim>\<open>for i := 0; i < params.RunNumber; i++ { allResults = append(allResults, runOnce(params)) }\<close>
\<close>

function runAll_loop ::
  "int \<Rightarrow> params \<Rightarrow> int list \<Rightarrow> rand_source \<Rightarrow> (int list \<times> rand_source) option" where
  "runAll_loop i p allResults s =
     (if i < RunNumber p then
        (case runOnce p s of
           None \<Rightarrow> None
         | Some (r, s') \<Rightarrow> runAll_loop (i + 1) p (allResults @ [r]) s')
      else Some (allResults, s))"
  by pat_completeness auto
termination
  by (relation "measure (\<lambda>(i, p, allResults, s). nat (RunNumber p - i))") auto

declare runAll_loop.simps [simp del]

definition runAll :: "params \<Rightarrow> rand_source \<Rightarrow> (int list \<times> rand_source) option" where
  "runAll p s = runAll_loop 0 p [] s"

section \<open>Request decoding\<close>

text \<open>
  The errors \<^verbatim>\<open>getParamsFromRequest\<close> returns: the JSON decoder failed, or the first
  validation failure as \<^verbatim>\<open>formatValidationError\<close> words it (field name; for a bound,
  the bound and the offending value).
\<close>

datatype request_error =
    InvalidJSON
  | FieldRequired string
  | FieldAtLeast string int int
  | FieldAtMost string int int

text \<open>
  The struct tags of \<^verbatim>\<open>requestBody\<close>, as the validator library reads them on an
  \<^verbatim>\<open>int\<close> field: \<^verbatim>\<open>required\<close> rejects the zero value, \<^verbatim>\<open>min=m\<close> a value below
  \<open>m\<close>, \<^verbatim>\<open>max=m\<close> a value above \<open>m\<close>. Fields are visited in declaration order and
  the tags of a field from left to right; \<^verbatim>\<open>formatValidationError\<close> reports the first
  failure only.
\<close>

definition required :: "string \<Rightarrow> int \<Rightarrow> request_error option" where
  "required field v = (if v = 0 then Some (FieldRequired field) else None)"

definition min_tag :: "int \<Rightarrow> string \<Rightarrow> int \<Rightarrow> request_error option" where
  "min_tag m field v = (if v < m then Some (FieldAtLeast field m v) else None)"

definition max_tag :: "int \<Rightarrow> string \<Rightarrow> int \<Rightarrow> request_error option" where
  "max_tag m field v = (if v > m then Some (FieldAtMost field m v) else None)"

fun first_failure :: "request_error option list \<Rightarrow> request_error option" where
  "first_failure [] = None"
| "first_failure (None # checks) = first_failure checks"
| "first_failure (Some e # checks) = Some e"

definition validateStruct :: "requestBody \<Rightarrow> request_error option" where
  "validateStruct body = first_failure
     [required ''Strength'' (Strength body), min_tag 1 ''Strength'' (Strength body),
      required ''Endurance'' (Endurance body), min_tag 1 ''Endurance'' (Endurance body),
      required ''DiceNumber'' (requestBody.DiceNumber body),
      min_tag 1 ''DiceNumber'' (requestBody.DiceNumber body),
      required ''TouchDifficulty'' (requestBody.TouchDifficulty body),
      min_tag 2 ''TouchDifficulty'' (requestBody.TouchDifficulty body),
      max_tag 6 ''TouchDifficulty'' (requestBody.TouchDifficulty body),
      min_tag 0 ''ArmorSave'' (requestBody.ArmorSave body),
      max_tag 6 ''ArmorSave'' (requestBody.ArmorSave body),
      min_tag 0 ''InvuSave'' (requestBody.InvuSave body),
      max_tag 6 ''InvuSave'' (requestBody.InvuSave body),
      required ''RunNumber'' (requestBody.RunNumber body),
      min_tag 1 ''RunNumber'' (requestBody.RunNumber body),
      max_tag 1000 ''RunNumber'' (requestBody.RunNumber body)]"

text \<open>
  \<^verbatim>\<open>getParamsFromRequest\<close>, from the outcome of the JSON decoder (\<open>None\<close> when it
  failed, the decoded body otherwise) to the error or the parameters.
\<close>

definition getParamsFromRequest :: "requestBody option \<Rightarrow> request_error + params" where
  "getParamsFromRequest decoded =
     (case decoded of
        None \<Rightarrow> Inl InvalidJSON
      | Some body \<Rightarrow>
          (case validateStruct body of
             Some e \<Rightarrow> Inl e
           | None \<Rightarrow>
               (let hurtDifficulty = getDifficulty (Strength body) (Endurance body)
                in Inr \<lparr>DiceNumber = requestBody.DiceNumber body,
                        TouchDifficulty = requestBody.TouchDifficulty body,
                        HurtDifficulty = hurtDifficulty,
                        ArmorSave = requestBody.ArmorSave body,
                        InvuSave = requestBody.InvuSave body,
                        RunNumber = requestBody.RunNumber body\<rparr>)))"

section \<open>The dice as the source yields them\<close>

text \<open>
  The face \<^verbatim>\<open>rollDice(sides)\<close> shows at the \<open>k\<close>-th draw after the state \<open>s\<close>, read off
  the source directly (before any wrap-around).
\<close>

definition face :: "int \<Rightarrow> rand_source \<Rightarrow> nat \<Rightarrow> int" where
  "face sides s k = int (entropy s (calls s + k)) mod sides + 1"

text \<open>
  The number of the first \<open>n\<close> wounds whose draw is strictly below \<open>save\<close>, when the
  draws are made one per wound from the state \<open>s\<close> on.
\<close>

definition passing_wounds :: "int \<Rightarrow> rand_source \<Rightarrow> int \<Rightarrow> int" where
  "passing_wounds save s n = int (length (filter (\<lambda>k. face 6 s k < save) [0..<nat n]))"

text \<open>
  What every stage is shown to do: it returns, its count lies between \<open>0\<close> and \<open>n\<close>, it
  leaves the raw sequence alone and only moves the cursor forward.
\<close>

definition stage_ok :: "int \<Rightarrow> rand_source \<Rightarrow> (int \<times> rand_source) option \<Rightarrow> bool" where
  "stage_ok n s res =
     (case res of
        None \<Rightarrow> False
      | Some (c, s') \<Rightarrow> 0 \<le> c \<and> c \<le> n \<and> entropy s' = entropy s \<and> calls s \<le> calls s')"

text \<open>
  The outcomes of \<open>k\<close> successive calls of \<^verbatim>\<open>runOnce\<close>, each starting from the state
  the previous one left, listed in call order.
\<close>

primrec trials :: "params \<Rightarrow> nat \<Rightarrow> rand_source \<Rightarrow> (int list \<times> rand_source) option" where
  "trials p 0 s = Some ([], s)"
| "trials p (Suc k) s =
     (case runOnce p s of
        None \<Rightarrow> None
      | Some (r, s1) \<Rightarrow>
          (case trials p k s1 of
             None \<Rightarrow> None
           | Some (rs, s2) \<Rightarrow> Some (r # rs, s2)))"

text \<open>
  The decision table of the specification, over the mathematical integers: conditions
  checked in this order, the first match wins.
\<close>

definition difficulty_table :: "int \<Rightarrow> int \<Rightarrow> int" where
  "difficulty_table strength endurance =
     (if strength \<ge> 2 * endurance then 2
      else if strength > endurance then 3
      else if strength * 2 \<le> endurance then 6
      else if strength < endurance then 5
      else 4)"

text \<open>Parameter sets and a request body used as concrete inputs.\<close>

definition scenario_params :: params where
  "scenario_params =
     \<lparr>DiceNumber = 10, TouchDifficulty = 4, HurtDifficulty = 4,
      ArmorSave = 0, InvuSave = 0, RunNumber = 1\<rparr>"

definition armored_params :: params where
  "armored_params =
     \<lparr>DiceNumber = 5, TouchDifficulty = 2, HurtDifficulty = 2,
      ArmorSave = 6, InvuSave = 3, RunNumber = 2\<rparr>"

definition sample_body :: requestBody where
  "sample_body =
     \<lparr>Strength = 6, Endurance = 5, DiceNumber = 10, TouchDifficulty = 4,
      ArmorSave = 0, InvuSave = 0, RunNumber = 1\<rparr>"

section \<open>Wrap-around\<close>

lemma wrap64_id: "- (2 ^ 63) \<le> x \<Longrightarrow> x < 2 ^ 63 \<Longrightarrow> wrap64 x = x"
  by (simp add: wrap64_def)

lemma mod_once: "m \<le> z \<Longrightarrow> z < 2 * m \<Longrightarrow> (z::int) mod m = z - m"
  using minus_mod_self2 [of z m] mod_pos_pos_trivial [of "z - m" m] by simp

lemma wrap64_above: "2 ^ 63 \<le> x \<Longrightarrow> x < 2 ^ 63 + 2 ^ 64 \<Longrightarrow> wrap64 x = x - 2 ^ 64"
  using mod_once [of "2 ^ 64" "x + 2 ^ 63"] by (simp add: wrap64_def)

section \<open>Moving along the random source\<close>

lemma advance_0: "advance 0 s = s"
  by (simp add: advance_def)

lemma advance_advance: "advance k (advance j s) = advance (j + k) s"
  by (simp add: advance_def add.assoc)

lemma entropy_advance: "entropy (advance k s) = entropy s"
  by (simp add: advance_def)

lemma calls_advance: "calls (advance k s) = calls s + k"
  by (simp add: advance_def)

lemma face_advance: "face sides (advance j s) k = face sides s (j + k)"
  by (simp add: face_def advance_def add.assoc)

lemma face_advance_Suc0: "face sides (advance (Suc 0) s) = (\<lambda>k. face sides s (Suc k))"
  by (rule ext) (simp add: face_advance)

lemma face_range: "1 \<le> sides \<Longrightarrow> 1 \<le> face sides s k \<and> face sides s k \<le> sides"
proof -
  assume "1 \<le> sides"
  then have "0 \<le> int (entropy s (calls s + k)) mod sides"
    and "int (entropy s (calls s + k)) mod sides < sides"
    by simp_all
  then show ?thesis by (simp add: face_def)
qed

section \<open>One die\<close>

lemma rollDice_face:
  assumes "1 \<le> sides" "sides \<le> maxInt"
  shows "rollDice sides s = Some (face sides s 0, advance 1 s)"
proof -
  have "1 \<le> face sides s 0" "face sides s 0 \<le> sides"
    using face_range [of sides s 0] assms by simp_all
  then have "wrap64 (face sides s 0) = face sides s 0"
    using assms by (intro wrap64_id) (simp_all add: maxInt_def)
  then show ?thesis
    using assms by (simp add: rollDice_def IntN_def face_def advance_def)
qed

lemma rollDice_nth:
  assumes "1 \<le> sides" "sides \<le> maxInt"
  shows "rollDice sides (advance k s) = Some (face sides s k, advance (Suc k) s)"
  using rollDice_face [OF assms, of "advance k s"]
  by (simp add: face_advance advance_advance)

lemma rollDice_6: "rollDice 6 s = Some (face 6 s 0, advance 1 s)"
  by (rule rollDice_face) (simp_all add: maxInt_def)

lemma rollDice_panics: "sides \<le> 0 \<Longrightarrow> rollDice sides s = None"
  by (simp add: rollDice_def IntN_def)

section \<open>A batch of dice\<close>

lemma map_upt_shift: "map f [0..<Suc m] = f 0 # map (\<lambda>k. f (Suc k)) [0..<m]"
  by (simp add: map_upt_Suc del: upt_Suc)

lemma rollDices_loop_faces:
  assumes "1 \<le> sides" "sides < maxInt"
  shows "rollDices_loop i n sides acc s =
           Some (acc @ map (\<lambda>k. face sides s k + 1) [0..<nat (n - i)], advance (nat (n - i)) s)"
proof (induction "nat (n - i)" arbitrary: i acc s)
  case 0
  then have "\<not> i < n" by simp
  with 0 show ?case
    by (subst rollDices_loop.simps) (simp add: advance_0)
next
  case (Suc m)
  then have lt: "i < n" and m: "m = nat (n - (i + 1))" by simp_all
  have r: "rollDice sides s = Some (face sides s 0, advance 1 s)"
    using assms by (intro rollDice_face) simp_all
  have w: "wrap64 (face sides s 0 + 1) = face sides s 0 + 1"
    using face_range [of sides s 0] assms by (intro wrap64_id) (simp_all add: maxInt_def)
  have "rollDices_loop i n sides acc s =
          rollDices_loop (i + 1) n sides (acc @ [face sides s 0 + 1]) (advance 1 s)"
    using lt r w by (subst rollDices_loop.simps) simp
  also have "\<dots> = Some ((acc @ [face sides s 0 + 1]) @
                 map (\<lambda>k. face sides (advance 1 s) k + 1) [0..<m], advance m (advance 1 s))"
    using Suc.hyps(1) [OF m] m by simp
  also have "\<dots> = Some (acc @ map (\<lambda>k. face sides s k + 1) [0..<Suc m], advance (Suc m) s)"
    by (simp add: face_advance advance_advance map_upt_shift del: upt_Suc)
  finally show ?case using Suc.hyps(2) by simp
qed

lemma rollDices_faces:
  assumes "1 \<le> sides" "sides < maxInt"
  shows "rollDices n sides s =
           Some (map (\<lambda>k. face sides s k + 1) [0..<nat n], advance (nat n) s)"
  using rollDices_loop_faces [OF assms, of 0 n "[]" s] by (simp add: rollDices_def)

lemma rollDices_6:
  "rollDices n 6 s = Some (map (\<lambda>k. face 6 s k + 1) [0..<nat n], advance (nat n) s)"
  by (rule rollDices_faces) (simp_all add: maxInt_def)

section \<open>The stages\<close>

lemma count_loop_filter:
  "count_loop d xs c = c + int (length (filter (\<lambda>r. d \<le> r) xs))"
  by (induction xs arbitrary: c) simp_all

lemma getNumberOfTouches_faces:
  "getNumberOfTouches p n s =
     Some (int (length (filter (\<lambda>r. TouchDifficulty p \<le> r)
                          (map (\<lambda>k. face 6 s k + 1) [0..<nat n]))),
           advance (nat n) s)"
  by (simp add: getNumberOfTouches_def rollDices_6 count_loop_filter)

lemma getNumberOfHurts_faces:
  "getNumberOfHurts p n s =
     Some (int (length (filter (\<lambda>r. HurtDifficulty p \<le> r)
                          (map (\<lambda>k. face 6 s k + 1) [0..<nat n]))),
           advance (nat n) s)"
  by (simp add: getNumberOfHurts_def rollDices_6 count_loop_filter)

lemma save_loop_faces:
  "save_loop save i n c s =
     Some (c + int (length (filter (\<lambda>r. r < save) (map (face 6 s) [0..<nat (n - i)]))),
           advance (nat (n - i)) s)"
proof (induction "nat (n - i)" arbitrary: i c s)
  case 0
  then have "\<not> i < n" by simp
  with 0 show ?case
    by (subst save_loop.simps) (simp add: advance_0)
next
  case (Suc m)
  then have lt: "i < n" and m: "m = nat (n - (i + 1))" by simp_all
  let ?c = "if face 6 s 0 < save then c + 1 else c"
  have "save_loop save i n c s = save_loop save (i + 1) n ?c (advance 1 s)"
    using lt by (subst save_loop.simps) (simp add: rollDice_6)
  also have "\<dots> = Some (?c + int (length (filter (\<lambda>r. r < save)
                        (map (face 6 (advance 1 s)) [0..<m]))), advance m (advance 1 s))"
    using Suc.hyps(1) [OF m] m by simp
  also have "\<dots> = Some (c + int (length (filter (\<lambda>r. r < save) (map (face 6 s) [0..<Suc m]))),
                        advance (Suc m) s)"
    by (simp add: face_advance_Suc0 advance_advance map_upt_shift del: upt_Suc)
  finally show ?case using Suc.hyps(2) by simp
qed

lemma save_loop_passing:
  "save_loop save 0 n 0 s = Some (passing_wounds save s n, advance (nat n) s)"
  by (simp add: save_loop_faces passing_wounds_def comp_def)

lemma passing_wounds_bounds: "0 \<le> passing_wounds save s n \<and> passing_wounds save s n \<le> max 0 n"
proof -
  have "length (filter (\<lambda>k. face 6 s k < save) [0..<nat n]) \<le> length [0..<nat n]"
    by (rule length_filter_le)
  then show ?thesis by (simp add: passing_wounds_def)
qed

lemma filter_count_bounds:
  "0 \<le> int (length (filter P (map f [0..<nat n]))) \<and>
   int (length (filter P (map f [0..<nat n]))) \<le> max 0 n"
proof -
  have "length (filter P (map f [0..<nat n])) \<le> length (map f [0..<nat n])"
    by (rule length_filter_le)
  then show ?thesis by simp
qed

lemma getNumberOfTouches_ok: "stage_ok (max 0 n) s (getNumberOfTouches p n s)"
  using filter_count_bounds [of "\<lambda>r. TouchDifficulty p \<le> r" "\<lambda>k. face 6 s k + 1" n]
  by (simp add: stage_ok_def getNumberOfTouches_faces entropy_advance calls_advance)

lemma getNumberOfHurts_ok: "stage_ok (max 0 n) s (getNumberOfHurts p n s)"
  using filter_count_bounds [of "\<lambda>r. HurtDifficulty p \<le> r" "\<lambda>k. face 6 s k + 1" n]
  by (simp add: stage_ok_def getNumberOfHurts_faces entropy_advance calls_advance)

lemma armor_stage_ok: "0 \<le> n \<Longrightarrow> stage_ok n s (armor_stage p n s)"
  using passing_wounds_bounds [of "ArmorSave p" s n]
  by (simp add: stage_ok_def armor_stage_def save_loop_passing entropy_advance calls_advance)

lemma invu_stage_ok: "0 \<le> n \<Longrightarrow> stage_ok n s (invu_stage p n s)"
  using passing_wounds_bounds [of "InvuSave p" s n]
  by (simp add: stage_ok_def invu_stage_def save_loop_passing entropy_advance calls_advance)

lemma stage_okE:
  assumes "stage_ok n s res"
  obtains c s' where "res = Some (c, s')" "0 \<le> c" "c \<le> n"
    "entropy s' = entropy s" "calls s \<le> calls s'"
  using assms by (auto simp: stage_ok_def split: option.splits)

lemma getNumberOfHurtsAfterSave_ok:
  assumes "0 \<le> n"
  shows "stage_ok n s (getNumberOfHurtsAfterSave p n s)"
proof -
  obtain a s1 where a: "armor_stage p n s = Some (a, s1)" "0 \<le> a" "a \<le> n"
      "entropy s1 = entropy s" "calls s \<le> calls s1"
    using armor_stage_ok [OF assms, of s p] by (rule stage_okE)
  obtain b s2 where b: "invu_stage p a s1 = Some (b, s2)" "0 \<le> b" "b \<le> a"
      "entropy s2 = entropy s1" "calls s1 \<le> calls s2"
    using invu_stage_ok [OF a(2), of s1 p] by (rule stage_okE)
  show ?thesis
    using a b by (simp add: getNumberOfHurtsAfterSave_def stage_ok_def)
qed

section \<open>One trial and a batch\<close>

lemma runOnce_stages:
  "\<exists>t h r s1 s2 s3.
     getNumberOfTouches p (DiceNumber p) s = Some (t, s1) \<and>
     getNumberOfHurts p t s1 = Some (h, s2) \<and>
     getNumberOfHurtsAfterSave p h s2 = Some (r, s3) \<and>
     runOnce p s = Some (r, s3) \<and>
     0 \<le> r \<and> r \<le> h \<and> h \<le> t \<and> t \<le> max 0 (DiceNumber p) \<and>
     entropy s3 = entropy s \<and> calls s \<le> calls s3"
proof -
  obtain t s1 where t: "getNumberOfTouches p (DiceNumber p) s = Some (t, s1)" "0 \<le> t"
      "t \<le> max 0 (DiceNumber p)" "entropy s1 = entropy s" "calls s \<le> calls s1"
    using getNumberOfTouches_ok [of "DiceNumber p" s p] by (rule stage_okE)
  obtain h s2 where h: "getNumberOfHurts p t s1 = Some (h, s2)" "0 \<le> h"
      "h \<le> max 0 t" "entropy s2 = entropy s1" "calls s1 \<le> calls s2"
    using getNumberOfHurts_ok [of t s1 p] by (rule stage_okE)
  obtain r s3 where r: "getNumberOfHurtsAfterSave p h s2 = Some (r, s3)" "0 \<le> r"
      "r \<le> h" "entropy s3 = entropy s2" "calls s2 \<le> calls s3"
    using getNumberOfHurtsAfterSave_ok [OF h(2), of s2 p] by (rule stage_okE)
  have "runOnce p s = Some (r, s3)"
    using t(1) h(1) r(1) by (simp add: runOnce_def)
  moreover have "h \<le> t"
    using h(3) t(2) by simp
  ultimately show ?thesis
    using t h r by auto
qed

lemma runAll_loop_trials:
  "runAll_loop i p acc s =
     (case trials p (nat (RunNumber p - i)) s of
        None \<Rightarrow> None
      | Some (rs, s') \<Rightarrow> Some (acc @ rs, s'))"
proof (induction "nat (RunNumber p - i)" arbitrary: i acc s)
  case 0
  then have "\<not> i < RunNumber p" by simp
  with 0 show ?case
    by (subst runAll_loop.simps) simp
next
  case (Suc m)
  then have lt: "i < RunNumber p" and m: "m = nat (RunNumber p - (i + 1))" by simp_all
  have k: "nat (RunNumber p - i) = Suc m"
    using Suc.hyps(2) by simp
  show ?case
  proof (cases "runOnce p s")
    case None
    with lt k show ?thesis
      by (subst runAll_loop.simps) simp
  next
    case (Some a)
    obtain r s1 where a: "a = (r, s1)" by (cases a)
    have "runAll_loop i p acc s = runAll_loop (i + 1) p (acc @ [r]) s1"
      using lt Some a by (subst runAll_loop.simps) simp
    also have "\<dots> = (case trials p m s1 of None \<Rightarrow> None
                        | Some (rs, s') \<Rightarrow> Some ((acc @ [r]) @ rs, s'))"
      using Suc.hyps(1) [OF m] m by simp
    also have "\<dots> = (case trials p (Suc m) s of None \<Rightarrow> None
                        | Some (rs, s') \<Rightarrow> Some (acc @ rs, s'))"
      using Some a by (simp split: option.splits)
    finally show ?thesis using k by simp
  qed
qed

lemma runAll_trials: "runAll p s = trials p (nat (RunNumber p)) s"
  by (simp add: runAll_def runAll_loop_trials split: option.splits)

lemma trials_returns:
  "\<exists>rs s'. trials p k s = Some (rs, s') \<and> length rs = k \<and>
     (\<forall>r \<in> set rs. 0 \<le> r \<and> r \<le> max 0 (DiceNumber p)) \<and>
     entropy s' = entropy s \<and> calls s \<le> calls s'"
proof (induction k arbitrary: s)
  case 0
  show ?case by simp
next
  case (Suc k)
  obtain r s1 where r: "runOnce p s = Some (r, s1)" "0 \<le> r" "r \<le> max 0 (DiceNumber p)"
      "entropy s1 = entropy s" "calls s \<le> calls s1"
    using runOnce_stages [of p s] by force
  obtain rs s2 where rs: "trials p k s1 = Some (rs, s2)" "length rs = k"
      "\<forall>r \<in> set rs. 0 \<le> r \<and> r \<le> max 0 (DiceNumber p)"
      "entropy s2 = entropy s1" "calls s1 \<le> calls s2"
    using Suc.IH [of s1] by blast
  show ?case
    using r rs by simp
qed

lemma trials_states:
  "trials p k s = Some (rs, s') \<Longrightarrow>
     \<exists>ss. length ss = Suc k \<and> ss ! 0 = s \<and> ss ! k = s' \<and> length rs = k \<and>
          (\<forall>i<k. runOnce p (ss ! i) = Some (rs ! i, ss ! Suc i))"
proof (induction k arbitrary: s rs)
  case 0
  then show ?case by (intro exI [of _ "[s]"]) simp
next
  case (Suc k)
  from Suc.prems obtain r s1 rs' where r: "runOnce p s = Some (r, s1)"
      and t: "trials p k s1 = Some (rs', s')" and rs: "rs = r # rs'"
    by (auto split: option.splits)
  from Suc.IH [OF t] obtain ss where ss: "length ss = Suc k" "ss ! 0 = s1" "ss ! k = s'"
      "length rs' = k" "\<forall>i<k. runOnce p (ss ! i) = Some (rs' ! i, ss ! Suc i)"
    by blast
  have "\<forall>i<Suc k. runOnce p ((s # ss) ! i) = Some (rs ! i, (s # ss) ! Suc i)"
  proof (intro allI impI)
    fix i assume "i < Suc k"
    then show "runOnce p ((s # ss) ! i) = Some (rs ! i, (s # ss) ! Suc i)"
      using r rs ss by (cases i) simp_all
  qed
  then show ?case
    using ss rs by (intro exI [of _ "s # ss"]) simp
qed

section \<open>The difficulty table\<close>

text \<open>
  Where \<^verbatim>\<open>getDifficulty\<close> follows the table: for every \<open>endurance\<close> below \<open>2\<^sup>6\<^sup>2\<close>.
  From there on the doubling of \<open>endurance\<close> wraps around and the answer is 2 whatever
  the strength.
\<close>

lemma getDifficulty_table:
  assumes "1 \<le> strength" and "strength \<le> maxInt" and "1 \<le> endurance" and "endurance < 2 ^ 62"
  shows "getDifficulty strength endurance = difficulty_table strength endurance"
proof -
  have e: "wrap64 (endurance * 2) = 2 * endurance"
    using assms by (simp add: wrap64_id)
  show ?thesis
  proof (cases "strength \<le> endurance")
    case True
    then have "wrap64 (strength * 2) = strength * 2"
      using assms by (simp add: wrap64_id)
    with e show ?thesis by (simp add: getDifficulty_def difficulty_table_def)
  next
    case False
    with e show ?thesis by (simp add: getDifficulty_def difficulty_table_def)
  qed
qed

lemma difficulty_table_equal:
  assumes "1 \<le> strength" and "1 \<le> endurance"
  shows "difficulty_table strength endurance = 4 \<longleftrightarrow> strength = endurance"
  using assms by (auto simp: difficulty_table_def)

lemma getDifficulty_equal:
  assumes "1 \<le> strength" and "strength \<le> maxInt" and "1 \<le> endurance" and "endurance < 2 ^ 62"
  shows "getDifficulty strength endurance = 4 \<longleftrightarrow> strength = endurance"
  using assms by (simp add: getDifficulty_table difficulty_table_equal)

lemma getDifficulty_values: "getDifficulty strength endurance \<in> {2, 3, 4, 5, 6}"
  by (simp add: getDifficulty_def)

lemma getDifficulty_spot_checks:
  "getDifficulty 10 5 = 2" "getDifficulty 6 5 = 3" "getDifficulty 5 6 = 5"
  "getDifficulty 5 11 = 6" "getDifficulty 7 7 = 4"
  by (simp_all add: getDifficulty_def wrap64_def)

lemma getDifficulty_large_endurance:
  assumes "2 ^ 62 \<le> endurance" and "endurance \<le> maxInt" and "0 \<le> strength"
  shows "getDifficulty strength endurance = 2"
proof -
  have "wrap64 (endurance * 2) = endurance * 2 - 2 ^ 64"
    using assms by (intro wrap64_above) (simp_all add: maxInt_def)
  then have "wrap64 (endurance * 2) < 0"
    using assms by (simp add: maxInt_def)
  then show ?thesis
    using assms by (simp add: getDifficulty_def)
qed

section \<open>Claims\<close>

text \<open>
  C1. \<^verbatim>\<open>rollDices(count, sides)\<close> with \<open>count \<ge> 0\<close> returns exactly \<open>count\<close> elements,
  the \<open>k\<close>-th being the \<open>k\<close>-th \<^verbatim>\<open>rollDice(sides)\<close> draw plus 1, hence a value of
  \<open>[2, sides + 1]\<close>. This holds for every \<open>sides\<close> from 1 up to the largest \<^verbatim>\<open>int\<close>
  but one: \<open>sides + 1\<close> has to be an \<^verbatim>\<open>int\<close> itself.
\<close>

theorem rollDices_length_and_range:
  assumes "0 \<le> count" and "1 \<le> sides" and "sides < maxInt"
  shows "\<exists>xs. rollDices count sides s = Some (xs, advance (nat count) s) \<and>
           int (length xs) = count \<and>
           (\<forall>k<length xs. \<exists>r. rollDice sides (advance k s) = Some (r, advance (Suc k) s) \<and>
                               xs ! k = r + 1 \<and> 2 \<le> xs ! k \<and> xs ! k \<le> sides + 1)"
proof -
  let ?xs = "map (\<lambda>k. face sides s k + 1) [0..<nat count]"
  have run: "rollDices count sides s = Some (?xs, advance (nat count) s)"
    using assms(2,3) by (rule rollDices_faces)
  have len: "int (length ?xs) = count"
    using assms(1) by simp
  have elems: "\<exists>r. rollDice sides (advance k s) = Some (r, advance (Suc k) s) \<and>
                  ?xs ! k = r + 1 \<and> 2 \<le> ?xs ! k \<and> ?xs ! k \<le> sides + 1"
    if "k < length ?xs" for k
  proof -
    have "rollDice sides (advance k s) = Some (face sides s k, advance (Suc k) s)"
      using assms(2,3) by (intro rollDice_nth) simp_all
    moreover have "?xs ! k = face sides s k + 1"
      using that by simp
    moreover have "1 \<le> face sides s k" "face sides s k \<le> sides"
      using face_range [OF assms(2), of s k] by simp_all
    ultimately show ?thesis by simp
  qed
  from run len elems show ?thesis by blast
qed

theorem rollDices_length_and_range_witness:
  "(0::int) \<le> 2 \<and> (1::int) \<le> 6 \<and> (6::int) < maxInt \<and>
   map_option (\<lambda>(xs, s'). (length xs, calls s')) (rollDices 2 6 counting_source) = Some (2, 2)"
  using rollDices_length_and_range [of 2 6 counting_source]
  by (auto simp: maxInt_def advance_def counting_source_def)

text \<open>
  With \<open>sides\<close> the largest \<^verbatim>\<open>int\<close> and the largest draw, the second increment wraps
  around: the one element returned is the smallest \<^verbatim>\<open>int\<close>, far below 2.
\<close>

theorem rollDices_overflow_counterexample:
  "(0::int) \<le> 1 \<and> (1::int) \<le> 9223372036854775807 \<and> 9223372036854775807 \<le> maxInt \<and>
   rollDice 9223372036854775807 (const_source 9223372036854775806) =
     Some (9223372036854775807, advance 1 (const_source 9223372036854775806)) \<and>
   rollDices 1 9223372036854775807 (const_source 9223372036854775806) =
     Some ([- 9223372036854775808], advance 1 (const_source 9223372036854775806)) \<and>
   \<not> (2::int) \<le> - 9223372036854775808"
  by (simp add: rollDices_def rollDices_loop.simps rollDice_def IntN_def const_source_def
      wrap64_def advance_def maxInt_def)

text \<open>
  C2. With \<open>RunNumber = N \<ge> 1\<close> and \<open>DiceNumber = d \<ge> 1\<close>, whatever the random source,
  \<^verbatim>\<open>runAll\<close> returns exactly \<open>N\<close> outcomes; there is a chain of states, starting at the
  initial one, along which the \<open>i\<close>-th outcome is what the \<open>i\<close>-th \<^verbatim>\<open>runOnce\<close> call
  returns; every outcome lies in \<open>[0, d]\<close>; and inside each trial the counts only go
  down: saved hurts \<open>\<le>\<close> hurts \<open>\<le>\<close> touches \<open>\<le> d\<close>.
\<close>

theorem runAll_outcomes:
  assumes "1 \<le> RunNumber p" and "1 \<le> DiceNumber p"
  shows "\<exists>rs ss. runAll p s = Some (rs, ss ! length rs) \<and>
           int (length rs) = RunNumber p \<and>
           length ss = Suc (length rs) \<and> ss ! 0 = s \<and>
           (\<forall>i<length rs. runOnce p (ss ! i) = Some (rs ! i, ss ! Suc i)) \<and>
           (\<forall>r \<in> set rs. 0 \<le> r \<and> r \<le> DiceNumber p) \<and>
           (\<forall>s0. \<exists>t h r s1 s2 s3.
              getNumberOfTouches p (DiceNumber p) s0 = Some (t, s1) \<and>
              getNumberOfHurts p t s1 = Some (h, s2) \<and>
              getNumberOfHurtsAfterSave p h s2 = Some (r, s3) \<and>
              runOnce p s0 = Some (r, s3) \<and>
              0 \<le> r \<and> r \<le> h \<and> h \<le> t \<and> t \<le> DiceNumber p)"
proof -
  let ?N = "nat (RunNumber p)"
  obtain rs s' where t: "trials p ?N s = Some (rs, s')" and len: "length rs = ?N"
      and rng: "\<forall>r \<in> set rs. 0 \<le> r \<and> r \<le> max 0 (DiceNumber p)"
    using trials_returns [of p ?N s] by blast
  obtain ss where ss: "length ss = Suc ?N" "ss ! 0 = s" "ss ! ?N = s'"
      "\<forall>i<?N. runOnce p (ss ! i) = Some (rs ! i, ss ! Suc i)"
    using trials_states [OF t] by blast
  have run: "runAll p s = Some (rs, ss ! length rs)"
    using t len ss(3) by (simp add: runAll_trials)
  have n: "int (length rs) = RunNumber p"
    using len assms(1) by simp
  have rng': "\<forall>r \<in> set rs. 0 \<le> r \<and> r \<le> DiceNumber p"
    using rng assms(2) by simp
  have stages: "\<exists>t h r s1 s2 s3.
              getNumberOfTouches p (DiceNumber p) s0 = Some (t, s1) \<and>
              getNumberOfHurts p t s1 = Some (h, s2) \<and>
              getNumberOfHurtsAfterSave p h s2 = Some (r, s3) \<and>
              runOnce p s0 = Some (r, s3) \<and>
              0 \<le> r \<and> r \<le> h \<and> h \<le> t \<and> t \<le> DiceNumber p" for s0
    using runOnce_stages [of p s0] assms(2) by (simp add: max_def) blast
  from run n ss(1,2,4) len rng' stages show ?thesis
    by (intro exI [of _ rs] exI [of _ ss]) simp
qed

theorem runAll_outcomes_witness:
  "1 \<le> RunNumber armored_params \<and> 1 \<le> DiceNumber armored_params \<and>
   map_option (\<lambda>(rs, s'). length rs) (runAll armored_params counting_source) = Some 2"
  using runAll_outcomes [of armored_params counting_source]
  by (auto simp: armored_params_def)

text \<open>
  C3. The claim is the decision table: 2 if \<open>strength \<ge> 2 * endurance\<close>, else 3 if
  \<open>strength > endurance\<close>, else 6 if \<open>2 * strength \<le> endurance\<close>, else 5 if
  \<open>strength < endurance\<close>, else 4, the last exactly for equal arguments. The code departs
  from it on a request it accepts: with strength 1 and endurance \<open>2\<^sup>6\<^sup>2\<close> the doubling
  \<^verbatim>\<open>endurance*2\<close> wraps around to a negative number, the first comparison succeeds and
  the weakest attacker gets difficulty 2 where the table says 6; equal arguments
  \<open>2\<^sup>6\<^sup>2\<close> give 2 where the table says 4.
\<close>

theorem getDifficulty_overflow:
  "getDifficulty 1 4611686018427387904 = 2 \<and>
   difficulty_table 1 4611686018427387904 = 6 \<and>
   getDifficulty 4611686018427387904 4611686018427387904 = 2 \<and>
   difficulty_table 4611686018427387904 4611686018427387904 = 4"
  by (simp add: getDifficulty_def difficulty_table_def wrap64_def)



text \<open>
  C5. With \<open>ArmorSave = 0\<close> and \<open>InvuSave = 0\<close> both save stages hand the wound count on
  untouched and draw nothing, for every count and every random source, so that
  \<^verbatim>\<open>getNumberOfHurtsAfterSave\<close> is the identity and a trial returns exactly what its hurt
  stage returns.
\<close>

theorem saves_disabled_identity:
  assumes "ArmorSave p = 0" and "InvuSave p = 0"
  shows "armor_stage p n s = Some (n, s) \<and> invu_stage p n s = Some (n, s) \<and>
         getNumberOfHurtsAfterSave p n s = Some (n, s) \<and>
         runOnce p s =
           (case getNumberOfTouches p (DiceNumber p) s of
              None \<Rightarrow> None
            | Some (numberOfTouches, s1) \<Rightarrow> getNumberOfHurts p numberOfTouches s1)"
proof -
  have a: "armor_stage p m t = Some (m, t)" for m t
    using assms(1) by (simp add: armor_stage_def)
  have i: "invu_stage p m t = Some (m, t)" for m t
    using assms(2) by (simp add: invu_stage_def)
  have b: "getNumberOfHurtsAfterSave p m t = Some (m, t)" for m t
    by (simp add: getNumberOfHurtsAfterSave_def a i)
  have "runOnce p s =
           (case getNumberOfTouches p (DiceNumber p) s of
              None \<Rightarrow> None
            | Some (numberOfTouches, s1) \<Rightarrow> getNumberOfHurts p numberOfTouches s1)"
    by (simp add: runOnce_def b split: option.splits)
  with a i b show ?thesis by simp
qed

theorem saves_disabled_identity_witness:
  "ArmorSave scenario_params = 0 \<and> InvuSave scenario_params = 0 \<and>
   getNumberOfHurtsAfterSave scenario_params 7 counting_source = Some (7, counting_source)"
  using saves_disabled_identity [of scenario_params 7 counting_source]
  by (simp add: scenario_params_def)

text \<open>
  C6. For every number of dice \<open>n \<ge> 0\<close> and every parameter set, \<^verbatim>\<open>getNumberOfTouches\<close>
  and \<^verbatim>\<open>getNumberOfHurts\<close> return (they never panic) a count between 0 and \<open>n\<close>; with
  zero dice they draw nothing, and return 0 with the random source untouched.
\<close>

theorem stage_counts_total:
  assumes "0 \<le> n"
  shows "(\<exists>c s'. getNumberOfTouches p n s = Some (c, s') \<and> 0 \<le> c \<and> c \<le> n) \<and>
         (\<exists>c s'. getNumberOfHurts p n s = Some (c, s') \<and> 0 \<le> c \<and> c \<le> n) \<and>
         rollDices 0 6 s = Some ([], s) \<and>
         getNumberOfTouches p 0 s = Some (0, s) \<and>
         getNumberOfHurts p 0 s = Some (0, s)"
proof -
  obtain c s' where "getNumberOfTouches p n s = Some (c, s')" "0 \<le> c" "c \<le> max 0 n"
    using getNumberOfTouches_ok [of n s p] by (rule stage_okE)
  then have touches: "\<exists>c s'. getNumberOfTouches p n s = Some (c, s') \<and> 0 \<le> c \<and> c \<le> n"
    using assms by simp
  obtain c s' where "getNumberOfHurts p n s = Some (c, s')" "0 \<le> c" "c \<le> max 0 n"
    using getNumberOfHurts_ok [of n s p] by (rule stage_okE)
  then have hurts: "\<exists>c s'. getNumberOfHurts p n s = Some (c, s') \<and> 0 \<le> c \<and> c \<le> n"
    using assms by simp
  have "rollDices 0 6 s = Some ([], s)"
    by (simp add: rollDices_6 advance_0)
  moreover have "getNumberOfTouches p 0 s = Some (0, s)"
    by (simp add: getNumberOfTouches_faces advance_0)
  moreover have "getNumberOfHurts p 0 s = Some (0, s)"
    by (simp add: getNumberOfHurts_faces advance_0)
  ultimately show ?thesis
    using touches hurts by simp
qed

theorem stage_counts_total_witness:
  "(0::int) \<le> 3 \<and>
   getNumberOfTouches scenario_params 3 counting_source = Some (1, advance 3 counting_source) \<and>
   getNumberOfHurts scenario_params 0 counting_source = Some (0, counting_source)"
proof -
  have "getNumberOfHurts scenario_params 0 counting_source = Some (0, counting_source)"
    using stage_counts_total [of 3 scenario_params counting_source] by simp
  moreover have "getNumberOfTouches scenario_params 3 counting_source =
      Some (1, advance 3 counting_source)"
    by (simp add: getNumberOfTouches_faces scenario_params_def face_def counting_source_def
        upt_rec)
  ultimately show ?thesis by simp
qed

text \<open>
  C7. With \<open>TouchDifficulty = 2\<close> the touch stage returns exactly the number of dice it
  was given, for every \<open>n \<ge> 0\<close> and every random source, and so does the hurt stage with
  \<open>HurtDifficulty = 2\<close>: every element of \<^verbatim>\<open>rollDices(n, 6)\<close> is a draw plus 1, at least 2
  (and at most 7), so that no element stands for face 1.
\<close>

theorem difficulty_two_passes_all:
  assumes "0 \<le> n"
  shows "(TouchDifficulty p = 2 \<longrightarrow> getNumberOfTouches p n s = Some (n, advance (nat n) s)) \<and>
         (HurtDifficulty p = 2 \<longrightarrow> getNumberOfHurts p n s = Some (n, advance (nat n) s)) \<and>
         (\<exists>xs. rollDices n 6 s = Some (xs, advance (nat n) s) \<and>
               (\<forall>x \<in> set xs. 2 \<le> x \<and> x \<le> 7))"
proof -
  let ?xs = "map (\<lambda>k. face 6 s k + 1) [0..<nat n]"
  have rng: "\<forall>x \<in> set ?xs. 2 \<le> x \<and> x \<le> 7"
    using face_range [of 6 s] by auto
  then have "filter (\<lambda>r. 2 \<le> r) ?xs = ?xs"
    by (intro filter_True) simp
  then have "length (filter (\<lambda>r. 2 \<le> r) ?xs) = nat n"
    by simp
  then have all: "int (length (filter (\<lambda>r. 2 \<le> r) ?xs)) = n"
    using assms by simp
  have touches: "TouchDifficulty p = 2 \<longrightarrow> getNumberOfTouches p n s = Some (n, advance (nat n) s)"
    using all by (simp add: getNumberOfTouches_faces)
  have hurts: "HurtDifficulty p = 2 \<longrightarrow> getNumberOfHurts p n s = Some (n, advance (nat n) s)"
    using all by (simp add: getNumberOfHurts_faces)
  have "rollDices n 6 s = Some (?xs, advance (nat n) s)"
    by (rule rollDices_6)
  with rng touches hurts show ?thesis by blast
qed

theorem difficulty_two_passes_all_witness:
  "(0::int) \<le> 5 \<and> TouchDifficulty armored_params = 2 \<and> HurtDifficulty armored_params = 2 \<and>
   getNumberOfTouches armored_params 5 (const_source 0) = Some (5, advance 5 (const_source 0)) \<and>
   getNumberOfHurts armored_params 5 (const_source 0) = Some (5, advance 5 (const_source 0))"
  using difficulty_two_passes_all [of 5 armored_params "const_source 0"]
  by (simp add: armored_params_def)

text \<open>
  C8. For every \<open>sides\<close> from 1 to the largest \<^verbatim>\<open>int\<close> and every state of the random
  source, \<^verbatim>\<open>rollDice(sides)\<close> returns a value of \<open>[1, sides]\<close>; the call makes exactly one
  draw, and its result is determined by the raw value at that one position of the source.
\<close>

theorem rollDice_range:
  assumes "1 \<le> sides" and "sides \<le> maxInt"
  shows "\<exists>r. rollDice sides s = Some (r, s\<lparr>calls := Suc (calls s)\<rparr>) \<and>
             r = int (entropy s (calls s)) mod sides + 1 \<and> 1 \<le> r \<and> r \<le> sides"
  using rollDice_face [OF assms, of s] face_range [OF assms(1), of s 0]
  by (simp add: face_def advance_def)

theorem rollDice_range_witness:
  "(1::int) \<le> 6 \<and> (6::int) \<le> maxInt \<and>
   rollDice 6 (const_source 11) = Some (6, advance 1 (const_source 11))"
  using rollDice_range [of 6 "const_source 11"]
  by (simp add: maxInt_def const_source_def advance_def)

text \<open>
  C9. When the decoded body passes validation, \<^verbatim>\<open>getParamsFromRequest\<close> returns
  parameters whose \<open>HurtDifficulty\<close> is \<^verbatim>\<open>getDifficulty(body.Strength, body.Endurance)\<close> and
  whose other five fields are the fields of the same name of the body.
\<close>

theorem getParamsFromRequest_fields:
  assumes "validateStruct body = None"
  shows "\<exists>p. getParamsFromRequest (Some body) = Inr p \<and>
             HurtDifficulty p = getDifficulty (Strength body) (Endurance body) \<and>
             DiceNumber p = requestBody.DiceNumber body \<and>
             TouchDifficulty p = requestBody.TouchDifficulty body \<and>
             ArmorSave p = requestBody.ArmorSave body \<and>
             InvuSave p = requestBody.InvuSave body \<and>
             RunNumber p = requestBody.RunNumber body"
  using assms by (simp add: getParamsFromRequest_def)

theorem getParamsFromRequest_fields_witness:
  "validateStruct sample_body = None \<and>
   getParamsFromRequest (Some sample_body) =
     Inr \<lparr>DiceNumber = 10, TouchDifficulty = 4, HurtDifficulty = 3,
          ArmorSave = 0, InvuSave = 0, RunNumber = 1\<rparr>"
proof -
  have v: "validateStruct sample_body = None"
    by (simp add: validateStruct_def sample_body_def required_def min_tag_def max_tag_def)
  have d: "getDifficulty 6 5 = 3"
    by (simp add: getDifficulty_def wrap64_def)
  from getParamsFromRequest_fields [OF v] obtain p where
    "getParamsFromRequest (Some sample_body) = Inr p"
    "HurtDifficulty p = getDifficulty (Strength sample_body) (Endurance sample_body)"
    "DiceNumber p = requestBody.DiceNumber sample_body"
    "TouchDifficulty p = requestBody.TouchDifficulty sample_body"
    "ArmorSave p = requestBody.ArmorSave sample_body"
    "InvuSave p = requestBody.InvuSave sample_body"
    "RunNumber p = requestBody.RunNumber sample_body"
    by blast
  with v d show ?thesis
    by (cases p) (simp add: sample_body_def)
qed

section \<open>Repeated batches\<close>

text \<open>
  The parameters reach \<^verbatim>\<open>runAll\<close> and every function below it as a value argument;
  no function of the source assigns to a field of them and none returns them. In this
  embedding they are therefore an argument and never a result, and their value after a
  call is not something a statement about these definitions can speak of. What a batch
  does change is the random source, and there only the position: the raw sequence
  stays. A second batch with the same parameters, run from the state the first one
  left, returns as well, with as many outcomes as the first, each between 0 and
  \<open>DiceNumber\<close> again.
\<close>

lemma runAll_twice:
  "\<exists>rs s1 rs' s2.
     runAll p s = Some (rs, s1) \<and> entropy s1 = entropy s \<and> calls s \<le> calls s1 \<and>
     runAll p s1 = Some (rs', s2) \<and> entropy s2 = entropy s \<and> calls s1 \<le> calls s2 \<and>
     runAll p s1 = trials p (nat (RunNumber p)) s1 \<and>
     length rs = nat (RunNumber p) \<and> length rs' = length rs \<and>
     (\<forall>r \<in> set rs. 0 \<le> r \<and> r \<le> max 0 (DiceNumber p)) \<and>
     (\<forall>r \<in> set rs'. 0 \<le> r \<and> r \<le> max 0 (DiceNumber p))"
proof -
  let ?N = "nat (RunNumber p)"
  obtain rs s1 where a: "trials p ?N s = Some (rs, s1)" "length rs = ?N"
      "\<forall>r \<in> set rs. 0 \<le> r \<and> r \<le> max 0 (DiceNumber p)"
      "entropy s1 = entropy s" "calls s \<le> calls s1"
    using trials_returns [of p ?N s] by blast
  obtain rs' s2 where b: "trials p ?N s1 = Some (rs', s2)" "length rs' = ?N"
      "\<forall>r \<in> set rs'. 0 \<le> r \<and> r \<le> max 0 (DiceNumber p)"
      "entropy s2 = entropy s1" "calls s1 \<le> calls s2"
    using trials_returns [of p ?N s1] by blast
  from a b show ?thesis
    by (simp add: runAll_trials)
qed

end
